theory Spec2Isabelle
  imports Complex_Main "HOL-Library.Word"
begin

section \<open>The mask engine of silx/gui/plot/MaskToolsWidget.py (class Mask)\<close>

subsection \<open>Arrays\<close>

text \<open>
  A numpy array is its shape and its elements in C (row-major) order.  The mask is an
  array of unsigned bytes.  An array is well formed when it has as many elements as its
  shape says; every array the engine builds is.
\<close>

record 'a ndarray =
  shape :: "nat list"
  flat :: "'a list"

type_synonym grid = "8 word ndarray"

definition wf_array :: "'a ndarray \<Rightarrow> bool" where
  "wf_array a \<longleftrightarrow> length (flat a) = prod_list (shape a)"

text \<open>\<^verbatim>\<open>numpy.zeros(shape, dtype=numpy.uint8)\<close>\<close>

definition zeros :: "nat list \<Rightarrow> grid" where
  "zeros sh = \<lparr>shape = sh, flat = replicate (prod_list sh) 0\<rparr>"

text \<open>
  Storing a Python integer in a byte cell keeps its low eight bits.  (Every operation
  that takes a level is used with levels from 1 to 255, where nothing is cut off.)
\<close>

definition uint8 :: "int \<Rightarrow> 8 word" where
  "uint8 v = word_of_int v"

text \<open>\<^verbatim>\<open>numpy.array(mask, order='C', dtype=numpy.uint8)\<close> of an integer array\<close>

definition as_uint8 :: "int ndarray \<Rightarrow> grid" where
  "as_uint8 a = \<lparr>shape = shape a, flat = map uint8 (flat a)\<rparr>"

text \<open>The cell at \<open>(r, c)\<close> of a two-dimensional array with \<open>ncols\<close> columns.\<close>

definition cell :: "'a ndarray \<Rightarrow> nat \<Rightarrow> nat \<Rightarrow> 'a" where
  "cell a r c = flat a ! (r * (shape a ! 1) + c)"

subsection \<open>Element-wise comparison with broadcasting\<close>

text \<open>
  \<^verbatim>\<open>numpy.all(numpy.equal(a, b))\<close>.  The shapes are aligned at their last
  dimension; two dimensions are compatible when they are equal or one of them is 1, and
  incompatible shapes raise ValueError.  The three functions below work on reversed
  shapes and reversed indices (last dimension first).
\<close>

datatype error = AssertionError | IndexError | ValueError

fun broadcast_shapes :: "nat list \<Rightarrow> nat list \<Rightarrow> nat list option" where
  "broadcast_shapes [] ys = Some ys"
| "broadcast_shapes (x # xs) [] = Some (x # xs)"
| "broadcast_shapes (x # xs) (y # ys) =
     (if x = y \<or> y = 1 then map_option ((#) x) (broadcast_shapes xs ys)
      else if x = 1 then map_option ((#) y) (broadcast_shapes xs ys)
      else None)"

fun indices :: "nat list \<Rightarrow> nat list list" where
  "indices [] = [[]]"
| "indices (d # ds) = concat (map (\<lambda>i. map ((#) i) (indices ds)) [0..<d])"

fun offset :: "nat list \<Rightarrow> nat list \<Rightarrow> nat" where
  "offset (d # ds) (i # js) = (if d = 1 then 0 else i) + d * offset ds js"
| "offset _ _ = 0"

definition equal_all :: "'a ndarray \<Rightarrow> 'a ndarray \<Rightarrow> error + bool" where
  "equal_all a b =
     (case broadcast_shapes (rev (shape a)) (rev (shape b)) of
        None \<Rightarrow> Inl ValueError
      | Some sh \<Rightarrow>
          Inr (list_all (\<lambda>ix. flat a ! offset (rev (shape a)) ix
                               = flat b ! offset (rev (shape b)) ix) (indices sh)))"

subsection \<open>The state of a Mask and its signals\<close>

datatype signal = sigChanged | sigUndoable bool | sigRedoable bool

text \<open>
  The fields \<^verbatim>\<open>historyDepth\<close>, \<^verbatim>\<open>_mask\<close>, \<^verbatim>\<open>_history\<close> (oldest
  snapshot first) and \<^verbatim>\<open>_redo\<close> (most recently undone snapshot last), and the
  signals emitted so far, the latest last.  Every snapshot the class stores is a copy,
  and \<^verbatim>\<open>redo\<close> removes from \<^verbatim>\<open>_redo\<close> the array it installs as the mask, so
  the mask never shares storage with a snapshot: arrays are modelled as values.
\<close>

record mask_state =
  historyDepth :: int
  m_mask :: grid
  m_history :: "grid list"
  m_redo :: "grid list"
  emitted :: "signal list"

definition emit :: "signal \<Rightarrow> mask_state \<Rightarrow> mask_state" where
  "emit sg s = s\<lparr>emitted := emitted s @ [sg]\<rparr>"

definition notify :: "mask_state \<Rightarrow> mask_state" where
  "notify s = emit sigChanged s"

text \<open>\<^verbatim>\<open>Mask.__init__\<close>: \<^verbatim>\<open>numpy.array((), dtype=numpy.uint8)\<close> has shape \<open>(0,)\<close>.\<close>

definition init :: mask_state where
  "init = \<lparr>historyDepth = 10, m_mask = \<lparr>shape = [0], flat = []\<rparr>,
           m_history = [], m_redo = [], emitted = []\<rparr>"

definition getMask :: "mask_state \<Rightarrow> grid" where
  "getMask s = m_mask s"

definition setMask :: "int ndarray \<Rightarrow> mask_state \<Rightarrow> error + mask_state" where
  "setMask a s =
     (if length (shape a) \<noteq> 2 then Inl AssertionError
      else Inr (notify (s\<lparr>m_mask := as_uint8 a\<rparr>)))"

subsection \<open>History control\<close>

definition resetHistory :: "mask_state \<Rightarrow> mask_state" where
  "resetHistory s =
     emit (sigRedoable False)
       (emit (sigUndoable False) (s\<lparr>m_history := [m_mask s], m_redo := []\<rparr>))"

text \<open>
  The loop \<^verbatim>\<open>while len(self._history) >= self.historyDepth: self._history.pop(0)\<close>.
  Popping from the empty list raises IndexError, which happens when the depth is not
  positive.
\<close>

fun evict :: "int \<Rightarrow> 'a list \<Rightarrow> error + 'a list" where
  "evict depth [] = (if 0 \<ge> depth then Inl IndexError else Inr [])"
| "evict depth (x # t) =
     (if int (length (x # t)) \<ge> depth then evict depth t else Inr (x # t))"

text \<open>
  The condition of \<^verbatim>\<open>commit\<close>, with Python's short-circuit \<^verbatim>\<open>or\<close>: the
  comparison is evaluated only when the history is non-empty and the redo list empty.
\<close>

definition commit_needed :: "mask_state \<Rightarrow> error + bool" where
  "commit_needed s =
     (if m_history s = [] \<or> m_redo s \<noteq> [] then Inr True
      else case equal_all (m_mask s) (last (m_history s)) of
             Inl e \<Rightarrow> Inl e
           | Inr same \<Rightarrow> Inr (\<not> same))"

definition commit :: "mask_state \<Rightarrow> error + mask_state" where
  "commit s =
     (case commit_needed s of
        Inl e \<Rightarrow> Inl e
      | Inr False \<Rightarrow> Inr s
      | Inr True \<Rightarrow>
          (let s1 = (if m_redo s \<noteq> [] then emit (sigRedoable False) (s\<lparr>m_redo := []\<rparr>)
                     else s)
           in case evict (historyDepth s1) (m_history s1) of
                Inl e \<Rightarrow> Inl e
              | Inr h \<Rightarrow>
                  (let s2 = s1\<lparr>m_history := h @ [m_mask s1]\<rparr>
                   in Inr (if length (m_history s2) = 2 then emit (sigUndoable True) s2
                           else s2))))"

definition undo :: "mask_state \<Rightarrow> mask_state" where
  "undo s =
     (if length (m_history s) > 1 then
        (let s1 = s\<lparr>m_redo := m_redo s @ [last (m_history s)],
                     m_history := butlast (m_history s)\<rparr>;
             s2 = notify (s1\<lparr>m_mask := last (m_history s1)\<rparr>);
             s3 = (if length (m_redo s2) = 1 then emit (sigRedoable True) s2 else s2)
         in if length (m_history s3) = 1 then emit (sigUndoable False) s3 else s3)
      else s)"

definition redo :: "mask_state \<Rightarrow> mask_state" where
  "redo s =
     (if m_redo s \<noteq> [] then
        (let s1 = s\<lparr>m_mask := last (m_redo s), m_redo := butlast (m_redo s)\<rparr>;
             s2 = notify (s1\<lparr>m_history := m_history s1 @ [m_mask s1]\<rparr>);
             s3 = (if m_redo s2 = [] then emit (sigRedoable False) s2 else s2)
         in if length (m_history s3) = 2 then emit (sigUndoable True) s3 else s3)
      else s)"

subsection \<open>Whole mask operations\<close>

definition clear :: "int \<Rightarrow> mask_state \<Rightarrow> error + mask_state" where
  "clear level s =
     (if \<not> (level > 0 \<and> level < 256) then Inl AssertionError
      else Inr (notify (s\<lparr>m_mask := (m_mask s)
             \<lparr>flat := map (\<lambda>x. if uint x = level then 0 else x) (flat (m_mask s))\<rparr>\<rparr>)))"

text \<open>
  \<^verbatim>\<open>reset\<close>: the shape is a tuple of Python integers, \<^verbatim>\<open>None\<close> standing for
  \<open>(0, 0)\<close>.  \<^verbatim>\<open>numpy.zeros\<close> raises ValueError on a negative dimension, after the
  comparison of the shapes and before anything is assigned.
\<close>

definition reset :: "int list option \<Rightarrow> mask_state \<Rightarrow> error + mask_state" where
  "reset shp s =
     (let sh = (case shp of None \<Rightarrow> [0, 0] | Some t \<Rightarrow> t) in
      if length sh \<noteq> 2 then Inl AssertionError
      else
        (let shapeChanged = (sh \<noteq> map int (shape (m_mask s))) in
         if \<exists>d \<in> set sh. d < 0 then Inl ValueError
         else
           (let s1 = s\<lparr>m_mask := zeros (map nat sh)\<rparr>;
                s2 = (if shapeChanged then resetHistory s1 else s1)
            in Inr (notify s2))))"

text \<open>
  \<^verbatim>\<open>invert\<close>: the cells equal to the level are recorded first, then the zero cells
  are set to the level, then the recorded cells are set to zero.
\<close>

definition invert :: "int \<Rightarrow> mask_state \<Rightarrow> error + mask_state" where
  "invert level s =
     (if \<not> (level > 0 \<and> level < 256) then Inl AssertionError
      else
        (let masked = map (\<lambda>x. uint x = level) (flat (m_mask s));
             m1 = map (\<lambda>x. if x = 0 then uint8 level else x) (flat (m_mask s));
             m2 = map2 (\<lambda>b x. if b then 0 else x) masked m1
         in Inr (notify (s\<lparr>m_mask := (m_mask s)\<lparr>flat := m2\<rparr>\<rparr>))))"

subsection \<open>Drawing operations\<close>

text \<open>
  A Python slice \<^verbatim>\<open>start:stop\<close> of a dimension of length \<open>n\<close> selects the
  indices from \<open>fst\<close> up to and excluding \<open>snd\<close> of \<open>slice_bounds start stop n\<close>:
  a negative bound counts from the end, and both bounds are clipped to \<open>0..n\<close>.
\<close>

definition slice_bounds :: "int \<Rightarrow> int \<Rightarrow> nat \<Rightarrow> nat \<times> nat" where
  "slice_bounds start stop n =
     (let clip = (\<lambda>i. if i < 0 then max (i + int n) 0 else min i (int n))
      in (nat (clip start), nat (clip stop)))"

text \<open>
  Assignment through a selection of cells, given by their positions in C order:
  \<open>f\<close> is applied to the selected cells, the others are kept.
\<close>

definition update_selected :: "(nat \<Rightarrow> bool) \<Rightarrow> ('a \<Rightarrow> 'a) \<Rightarrow> 'a ndarray \<Rightarrow> 'a ndarray" where
  "update_selected sel f a =
     a\<lparr>flat := map (\<lambda>i. if sel i then f (flat a ! i) else flat a ! i) [0..<length (flat a)]\<rparr>"

text \<open>What masking and unmasking do to one selected cell.\<close>

definition paint :: "int \<Rightarrow> bool \<Rightarrow> 8 word \<Rightarrow> 8 word" where
  "paint level msk x = (if msk then uint8 level else if uint x = level then 0 else x)"

text \<open>
  \<^verbatim>\<open>updateRectangle\<close>.  Slicing two dimensions of the one-dimensional array a fresh
  Mask holds raises IndexError.  (The mask never has more than two dimensions, see
  \<open>run_rank\<close> below; the model answers IndexError there too.)  \<open>rect_slice\<close> gives
  the bounds of the slices \<^verbatim>\<open>max(0, row):row+height+1\<close> of the rows and
  \<^verbatim>\<open>max(0, col):col+width+1\<close> of the columns.
\<close>

definition rect_slice :: "int \<Rightarrow> int \<Rightarrow> nat \<Rightarrow> nat \<times> nat" where
  "rect_slice start extent n = slice_bounds (max 0 start) (start + extent + 1) n"

definition updateRectangle ::
    "int \<Rightarrow> int \<Rightarrow> int \<Rightarrow> int \<Rightarrow> int \<Rightarrow> bool \<Rightarrow> mask_state \<Rightarrow> error + mask_state" where
  "updateRectangle level row col height width msk s =
     (if \<not> (level > 0 \<and> level < 256) then Inl AssertionError
      else case shape (m_mask s) of
        [nrows, ncols] \<Rightarrow>
          (let (r0, r1) = rect_slice row height nrows;
               (c0, c1) = rect_slice col width ncols;
               selection = (\<lambda>i. r0 \<le> i div ncols \<and> i div ncols < r1
                                \<and> c0 \<le> i mod ncols \<and> i mod ncols < c1)
           in Inr (notify (s\<lparr>m_mask := update_selected selection (paint level msk) (m_mask s)\<rparr>)))
      | _ \<Rightarrow> Inl IndexError)"

text \<open>
  \<^verbatim>\<open>updatePoints\<close>.  The coordinates are two one-dimensional integer arrays.  Arrays
  of different lengths cannot be combined by \<^verbatim>\<open>numpy.logical_and\<close> (ValueError),
  unless one has a single element, and then the boolean index \<open>valid\<close> does not fit
  it (IndexError).  \<^verbatim>\<open>self._mask.shape[1]\<close> raises IndexError on the one-dimensional
  array of a fresh Mask.  \<open>in_bounds\<close> is the test behind the boolean array
  \<^verbatim>\<open>valid\<close>, and \<open>valid_points\<close> the pairs \<^verbatim>\<open>rows[valid], cols[valid]\<close>.
\<close>

definition in_bounds :: "nat \<Rightarrow> nat \<Rightarrow> int \<times> int \<Rightarrow> bool" where
  "in_bounds nrows ncols = (\<lambda>(r, c). (r \<ge> 0 \<and> c \<ge> 0) \<and> (r < int nrows \<and> c < int ncols))"

definition valid_points :: "nat \<Rightarrow> nat \<Rightarrow> int list \<Rightarrow> int list \<Rightarrow> (nat \<times> nat) list" where
  "valid_points nrows ncols rows cols =
     map (\<lambda>(r, c). (nat r, nat c)) (filter (in_bounds nrows ncols) (zip rows cols))"

definition set_points :: "(nat \<times> nat) list \<Rightarrow> 'a \<Rightarrow> 'a ndarray \<Rightarrow> 'a ndarray" where
  "set_points pts v a =
     a\<lparr>flat := foldl (\<lambda>f (r, c). f[r * (shape a ! 1) + c := v]) (flat a) pts\<rparr>"

definition updatePoints ::
    "int \<Rightarrow> int list \<Rightarrow> int list \<Rightarrow> bool \<Rightarrow> mask_state \<Rightarrow> error + mask_state" where
  "updatePoints level rows cols msk s =
     (if length rows \<noteq> length cols \<and> length rows \<noteq> 1 \<and> length cols \<noteq> 1 then Inl ValueError
      else case shape (m_mask s) of
        [nrows, ncols] \<Rightarrow>
          if length rows \<noteq> length cols then Inl IndexError
          else
            (let pts = valid_points nrows ncols rows cols in
             if msk then Inr (notify (s\<lparr>m_mask := set_points pts (uint8 level) (m_mask s)\<rparr>))
             else
               (let inMask = filter (\<lambda>(r, c). uint (cell (m_mask s) r c) = level) pts
                in Inr (notify (s\<lparr>m_mask := set_points inMask 0 (m_mask s)\<rparr>))))
      | _ \<Rightarrow> Inl IndexError)"

text \<open>
  \<^verbatim>\<open>rows, cols = numpy.nonzero(stencil)\<close>: the coordinates of the true cells in C
  order; unpacking into two names raises ValueError unless the stencil has two dimensions.
\<close>

definition nonzero :: "bool ndarray \<Rightarrow> error + int list \<times> int list" where
  "nonzero st =
     (case shape st of
        [sr, sc] \<Rightarrow>
          (let hits = filter (\<lambda>i. flat st ! i) [0..<length (flat st)]
           in Inr (map (\<lambda>i. int (i div sc)) hits, map (\<lambda>i. int (i mod sc)) hits))
      | _ \<Rightarrow> Inl ValueError)"

definition updateStencil :: "int \<Rightarrow> bool ndarray \<Rightarrow> bool \<Rightarrow> mask_state \<Rightarrow> error + mask_state" where
  "updateStencil level stencil msk s =
     (case nonzero stencil of
        Inl e \<Rightarrow> Inl e
      | Inr (rows, cols) \<Rightarrow> updatePoints level rows cols msk s)"

text \<open>
  The module \<^verbatim>\<open>silx.image.shapes\<close> is a parameter.  \<^verbatim>\<open>polygon_fill_mask\<close>
  gives the cells of an array of the shape it is asked for; \<^verbatim>\<open>circle_fill\<close> and
  \<^verbatim>\<open>draw_line\<close> give the rows and the columns of the points they cover.
\<close>

record shapes =
  polygon_fill_mask :: "(int \<times> int) list \<Rightarrow> nat list \<Rightarrow> 8 word list"
  circle_fill :: "int \<Rightarrow> int \<Rightarrow> real \<Rightarrow> int list \<times> int list"
  draw_line :: "int \<Rightarrow> int \<Rightarrow> int \<Rightarrow> int \<Rightarrow> int \<Rightarrow> int list \<times> int list"

definition updatePolygon ::
    "shapes \<Rightarrow> int \<Rightarrow> (int \<times> int) list \<Rightarrow> bool \<Rightarrow> mask_state \<Rightarrow> error + mask_state" where
  "updatePolygon geo level vertices msk s =
     (let fill = polygon_fill_mask geo vertices (shape (m_mask s))
      in Inr (notify (s\<lparr>m_mask :=
            update_selected (\<lambda>i. i < length fill \<and> fill ! i \<noteq> 0) (paint level msk) (m_mask s)\<rparr>)))"

definition updateDisk ::
    "shapes \<Rightarrow> int \<Rightarrow> int \<Rightarrow> int \<Rightarrow> real \<Rightarrow> bool \<Rightarrow> mask_state \<Rightarrow> error + mask_state" where
  "updateDisk geo level crow ccol radius msk s =
     (case circle_fill geo crow ccol radius of
        (rows, cols) \<Rightarrow> updatePoints level rows cols msk s)"

definition updateLine ::
    "shapes \<Rightarrow> int \<Rightarrow> int \<Rightarrow> int \<Rightarrow> int \<Rightarrow> int \<Rightarrow> int \<Rightarrow> bool \<Rightarrow> mask_state
       \<Rightarrow> error + mask_state" where
  "updateLine geo level row0 col0 row1 col1 width msk s =
     (case draw_line geo row0 col0 row1 col1 width of
        (rows, cols) \<Rightarrow> updatePoints level rows cols msk s)"

subsection \<open>Sequences of calls\<close>

datatype op =
    SetMask "int ndarray"
  | ResetHistory
  | Commit
  | Undo
  | Redo
  | Clear int
  | Reset "int list option"
  | Invert int
  | UpdateRectangle int int int int int bool
  | UpdatePolygon int "(int \<times> int) list" bool
  | UpdatePoints int "int list" "int list" bool
  | UpdateStencil int "bool ndarray" bool
  | UpdateDisk int int int real bool
  | UpdateLine int int int int int int bool

fun exec :: "shapes \<Rightarrow> op \<Rightarrow> mask_state \<Rightarrow> error + mask_state" where
  "exec geo (SetMask a) s = setMask a s"
| "exec geo ResetHistory s = Inr (resetHistory s)"
| "exec geo Commit s = commit s"
| "exec geo Undo s = Inr (undo s)"
| "exec geo Redo s = Inr (redo s)"
| "exec geo (Clear level) s = clear level s"
| "exec geo (Reset shp) s = reset shp s"
| "exec geo (Invert level) s = invert level s"
| "exec geo (UpdateRectangle level row col height width msk) s =
     updateRectangle level row col height width msk s"
| "exec geo (UpdatePolygon level vertices msk) s = updatePolygon geo level vertices msk s"
| "exec geo (UpdatePoints level rows cols msk) s = updatePoints level rows cols msk s"
| "exec geo (UpdateStencil level stencil msk) s = updateStencil level stencil msk s"
| "exec geo (UpdateDisk level crow ccol radius msk) s = updateDisk geo level crow ccol radius msk s"
| "exec geo (UpdateLine level row0 col0 row1 col1 width msk) s =
     updateLine geo level row0 col0 row1 col1 width msk s"

text \<open>
  A sequence of calls, stopping at the first exception.  Every exception of the model but
  one is raised before the call has changed anything, so a caller that catches it goes on
  from the same state; the exception is the IndexError of \<open>evict\<close>, which needs a
  history depth below 1.
\<close>

fun run :: "shapes \<Rightarrow> op list \<Rightarrow> mask_state \<Rightarrow> error + mask_state" where
  "run geo [] s = Inr s"
| "run geo (x # xs) s = (case exec geo x s of Inl e \<Rightarrow> Inl e | Inr s' \<Rightarrow> run geo xs s')"

subsection \<open>Invariants of the arrays a Mask holds\<close>

text \<open>
  \<open>same_shapes\<close>: every snapshot of the history and of the redo list has the shape of
  the mask.  \<open>all_arrays P\<close>: the mask and every snapshot satisfy \<open>P\<close>.
\<close>

definition same_shapes :: "mask_state \<Rightarrow> bool" where
  "same_shapes s \<longleftrightarrow>
     list_all (\<lambda>g. shape g = shape (m_mask s)) (m_history s @ m_redo s)"

definition all_arrays :: "(grid \<Rightarrow> bool) \<Rightarrow> mask_state \<Rightarrow> bool" where
  "all_arrays P s \<longleftrightarrow> P (m_mask s) \<and> list_all P (m_history s @ m_redo s)"

fun is_setMask :: "op \<Rightarrow> bool" where
  "is_setMask (SetMask a) = True"
| "is_setMask _ = False"

fun is_reset :: "op \<Rightarrow> bool" where
  "is_reset (Reset shp) = True"
| "is_reset _ = False"

fun setMask_arrays :: "op \<Rightarrow> int ndarray list" where
  "setMask_arrays (SetMask a) = [a]"
| "setMask_arrays _ = []"

subsection \<open>Concrete inputs for the examples\<close>

text \<open>A geometry module that covers no point at all.\<close>

definition no_shapes :: shapes where
  "no_shapes = \<lparr>polygon_fill_mask = (\<lambda>_ _. []), circle_fill = (\<lambda>_ _ _. ([], [])),
                 draw_line = (\<lambda>_ _ _ _ _. ([], []))\<rparr>"

text \<open>
  A one-cell mask with two committed states and an edit that has not been committed:
  the state after \<^verbatim>\<open>reset((1, 1))\<close>, \<^verbatim>\<open>updatePoints(1, [0], [0])\<close>,
  \<^verbatim>\<open>commit()\<close>, \<^verbatim>\<open>updatePoints(2, [0], [0])\<close> on a fresh Mask.
\<close>

definition uncommitted_edit :: mask_state where
  "uncommitted_edit =
     \<lparr>historyDepth = 10, m_mask = \<lparr>shape = [1, 1], flat = [2]\<rparr>,
      m_history = [\<lparr>shape = [1, 1], flat = [0]\<rparr>, \<lparr>shape = [1, 1], flat = [1]\<rparr>],
      m_redo = [],
      emitted = [sigUndoable False, sigRedoable False, sigChanged, sigChanged,
                 sigUndoable True, sigChanged]\<rparr>"

text \<open>The same mask with the edit committed.\<close>

definition committed_edit :: mask_state where
  "committed_edit =
     \<lparr>historyDepth = 10, m_mask = \<lparr>shape = [1, 1], flat = [2]\<rparr>,
      m_history = [\<lparr>shape = [1, 1], flat = [0]\<rparr>, \<lparr>shape = [1, 1], flat = [1]\<rparr>,
                   \<lparr>shape = [1, 1], flat = [2]\<rparr>],
      m_redo = [],
      emitted = [sigUndoable False, sigRedoable False, sigChanged, sigChanged,
                 sigUndoable True, sigChanged]\<rparr>"

text \<open>
  A one-cell mask that is inverted and committed twelve times, and the state this
  leaves.
\<close>

definition twelve_commits :: "op list" where
  "twelve_commits = Reset (Some [1, 1]) # concat (replicate 12 [Invert 1, Commit])"

definition after_twelve :: mask_state where
  "after_twelve = projr (run no_shapes twelve_commits init)"

text \<open>
  An empty 5 by 5 mask, the state after \<^verbatim>\<open>reset((5, 5))\<close> on a fresh Mask; the same
  after \<^verbatim>\<open>updateRectangle(3, 0, 0, 1, 1, True)\<close>; and a mask holding the levels 2
  and 7.
\<close>

definition blank5 :: mask_state where
  "blank5 = \<lparr>historyDepth = 10, m_mask = zeros [5, 5], m_history = [zeros [5, 5]],
             m_redo = [], emitted = [sigUndoable False, sigRedoable False, sigChanged]\<rparr>"

definition painted3 :: mask_state where
  "painted3 = notify (blank5\<lparr>m_mask :=
     \<lparr>shape = [5, 5],
      flat = [3, 3, 0, 0, 0,  3, 3, 0, 0, 0,  0, 0, 0, 0, 0,  0, 0, 0, 0, 0,
              0, 0, 0, 0, 0]\<rparr>\<rparr>)"

definition mixed_levels :: mask_state where
  "mixed_levels = notify (blank5\<lparr>m_mask :=
     \<lparr>shape = [5, 5],
      flat = [2, 2, 0, 0, 0,  7, 0, 0, 0, 0,  0, 0, 0, 0, 0,  0, 0, 0, 0, 0,
              0, 0, 0, 0, 2]\<rparr>\<rparr>)"

text \<open>
  The one-cell mask after \<^verbatim>\<open>setMask\<close> with a 1 by 2 array and \<^verbatim>\<open>commit()\<close>.
\<close>

definition reshaped :: mask_state where
  "reshaped =
     \<lparr>historyDepth = 10, m_mask = \<lparr>shape = [1, 2], flat = [5, 6]\<rparr>,
      m_history = [\<lparr>shape = [1, 1], flat = [0]\<rparr>, \<lparr>shape = [1, 1], flat = [1]\<rparr>,
                   \<lparr>shape = [1, 1], flat = [2]\<rparr>, \<lparr>shape = [1, 2], flat = [5, 6]\<rparr>],
      m_redo = [],
      emitted = [sigUndoable False, sigRedoable False, sigChanged, sigChanged,
                 sigUndoable True, sigChanged, sigChanged]\<rparr>"

section \<open>Properties\<close>

subsection \<open>Signals leave the other fields alone\<close>

lemma emit_fields [simp]:
  "historyDepth (emit sg s) = historyDepth s"
  "m_mask (emit sg s) = m_mask s"
  "m_history (emit sg s) = m_history s"
  "m_redo (emit sg s) = m_redo s"
  "emitted (emit sg s) = emitted s @ [sg]"
  by (simp_all add: emit_def)

lemma notify_fields [simp]:
  "historyDepth (notify s) = historyDepth s"
  "m_mask (notify s) = m_mask s"
  "m_history (notify s) = m_history s"
  "m_redo (notify s) = m_redo s"
  "emitted (notify s) = emitted s @ [sigChanged]"
  by (simp_all add: notify_def)

subsection \<open>Commit\<close>

lemma broadcast_shapes_same: "broadcast_shapes xs xs = Some xs"
  by (induction xs) simp_all

lemma equal_all_same: "equal_all a a = Inr True"
  by (simp add: equal_all_def broadcast_shapes_same list_all_iff)

text \<open>
  On well-formed arrays of one shape the comparison is equality of the arrays: the
  offsets of the indices of a shape are exactly the positions of its cells.
\<close>

lemma offset_indices:
  "offset sh ` set (indices sh) = {0..<prod_list sh}"
proof (induction sh)
  case Nil
  then show ?case by simp
next
  case (Cons d ds)
  have "offset (d # ds) ` set (indices (d # ds))
          = (\<lambda>(i, k). i + d * k) ` ({0..<d} \<times> offset ds ` set (indices ds))"
    by (force simp: image_iff)
  also have "\<dots> = (\<lambda>(i, k). i + d * k) ` ({0..<d} \<times> {0..<prod_list ds})"
    by (simp add: Cons.IH)
  also have "\<dots> = {0..<d * prod_list ds}"
  proof (intro equalityI subsetI)
    fix n
    assume "n \<in> (\<lambda>(i, k). i + d * k) ` ({0..<d} \<times> {0..<prod_list ds})"
    then obtain i k where n: "n = i + d * k" and i: "i < d" and k: "k < prod_list ds"
      by auto
    have "i + d * k < d + d * k" using i by simp
    also have "\<dots> = d * Suc k" by simp
    also have "\<dots> \<le> d * prod_list ds" using k by (intro mult_le_mono2) simp
    finally show "n \<in> {0..<d * prod_list ds}" using n by simp
  next
    fix n
    assume "n \<in> {0..<d * prod_list ds}"
    then have n: "n < d * prod_list ds" by simp
    then have d: "0 < d" by (cases d) auto
    have "n div d < prod_list ds" using n d by (simp add: less_mult_imp_div_less mult.commute)
    moreover have "n mod d < d" using d by simp
    moreover have "n = n mod d + d * (n div d)" by simp
    ultimately show "n \<in> (\<lambda>(i, k). i + d * k) ` ({0..<d} \<times> {0..<prod_list ds})"
      by (intro image_eqI [where x = "(n mod d, n div d)"]) auto
  qed
  finally show ?case by simp
qed

lemma equal_all_same_shape:
  assumes "shape a = shape b" and "wf_array a" and "wf_array b"
  shows "equal_all a b = Inr (a = b)"
proof -
  let ?sh = "rev (shape a)"
  have len: "length (flat a) = prod_list ?sh" "length (flat b) = prod_list ?sh"
    using assms by (simp_all add: wf_array_def)
  have "list_all (\<lambda>ix. flat a ! offset ?sh ix = flat b ! offset ?sh ix) (indices ?sh)
          \<longleftrightarrow> (\<forall>n \<in> offset ?sh ` set (indices ?sh). flat a ! n = flat b ! n)"
    by (simp add: list_all_iff)
  also have "\<dots> \<longleftrightarrow> (\<forall>n < prod_list ?sh. flat a ! n = flat b ! n)"
    by (auto simp: offset_indices)
  also have "\<dots> \<longleftrightarrow> flat a = flat b"
    using len by (simp add: list_eq_iff_nth_eq)
  also have "\<dots> \<longleftrightarrow> a = b" using assms(1) by (cases a; cases b) simp
  finally show ?thesis
    using assms(1) by (simp add: equal_all_def broadcast_shapes_same)
qed

lemma evict_positive:
  "1 \<le> d \<Longrightarrow> \<exists>h'. evict d h = Inr h' \<and> int (length h') < d \<and> length h' \<le> length h"
  by (induction h) auto

lemma commit_unneeded:
  "m_history s \<noteq> [] \<Longrightarrow> m_redo s = [] \<Longrightarrow> m_mask s = last (m_history s) \<Longrightarrow> commit s = Inr s"
  by (simp add: commit_def commit_needed_def equal_all_same)

lemma commit_result:
  "commit s = Inr s' \<Longrightarrow>
     s' = s \<or> (m_redo s' = [] \<and> m_history s' \<noteq> [] \<and> last (m_history s') = m_mask s')"
  by (auto simp: commit_def Let_def split: sum.splits bool.splits if_splits)

text \<open>
  C6.  When the mask equals the last snapshot of the history (same shape, same cells) and
  the redo list is empty, \<open>commit\<close> returns the state it was given: nothing is appended
  to the history, nothing is cleared and no signal is emitted.  Hence a commit that
  directly follows a successful commit changes nothing: no second history entry, no
  second \<open>sigUndoable\<close>.
\<close>

theorem commit_idempotent:
  "(m_history s \<noteq> [] \<and> m_redo s = [] \<and> m_mask s = last (m_history s) \<longrightarrow> commit s = Inr s)
   \<and> (commit s = Inr s' \<longrightarrow> commit s' = Inr s')"
proof (intro conjI impI)
  assume "m_history s \<noteq> [] \<and> m_redo s = [] \<and> m_mask s = last (m_history s)"
  then show "commit s = Inr s" by (simp add: commit_unneeded)
next
  assume c: "commit s = Inr s'"
  from commit_result [OF c] show "commit s' = Inr s'"
  proof
    assume "s' = s" with c show ?thesis by simp
  next
    assume "m_redo s' = [] \<and> m_history s' \<noteq> [] \<and> last (m_history s') = m_mask s'"
    then show ?thesis by (simp add: commit_unneeded)
  qed
qed

theorem commit_idempotent_witness:
  "commit uncommitted_edit = Inr committed_edit
   \<and> m_history committed_edit \<noteq> [] \<and> m_redo committed_edit = []
   \<and> m_mask committed_edit = last (m_history committed_edit)
   \<and> commit committed_edit = Inr committed_edit"
proof -
  have c: "commit uncommitted_edit = Inr committed_edit" by code_simp
  have h: "m_history committed_edit \<noteq> [] \<and> m_redo committed_edit = []
           \<and> m_mask committed_edit = last (m_history committed_edit)"
    by (simp add: committed_edit_def)
  from commit_idempotent [of committed_edit committed_edit] h
  have "commit committed_edit = Inr committed_edit" by blast
  moreover from commit_idempotent [of uncommitted_edit committed_edit] c
  have "commit committed_edit = Inr committed_edit" by blast
  ultimately show ?thesis using c h by simp
qed

subsection \<open>Undo and redo\<close>

text \<open>
  C2, as the code has it.  In a state whose history holds at least two snapshots,
  \<open>undo\<close> followed by \<open>redo\<close> gives back the history and the redo list unchanged (so
  their lengths too) and sets the mask to the last snapshot of the history.  The mask is
  the one before the undo when that mask had been committed, that is, when it was equal
  to the last snapshot.
\<close>

theorem undo_redo_round_trip:
  "2 \<le> length (m_history s) \<Longrightarrow>
     m_history (redo (undo s)) = m_history s \<and> m_redo (redo (undo s)) = m_redo s
     \<and> m_mask (redo (undo s)) = last (m_history s)
     \<and> (m_mask s = last (m_history s) \<longrightarrow> m_mask (redo (undo s)) = m_mask s)"
  by (cases "m_history s" rule: rev_cases) (auto simp: undo_def redo_def Let_def)

theorem undo_redo_round_trip_witness:
  "2 \<le> length (m_history committed_edit)
   \<and> m_mask committed_edit = last (m_history committed_edit)
   \<and> m_history (redo (undo committed_edit)) = m_history committed_edit
   \<and> m_redo (redo (undo committed_edit)) = m_redo committed_edit
   \<and> m_mask (redo (undo committed_edit)) = m_mask committed_edit"
proof -
  have h: "2 \<le> length (m_history committed_edit)" by (simp add: committed_edit_def)
  have m: "m_mask committed_edit = last (m_history committed_edit)"
    by (simp add: committed_edit_def)
  from undo_redo_round_trip [OF h] m h show ?thesis by simp
qed

text \<open>
  The claim as it is written, for every reachable state, fails when the mask holds an
  edit that was not committed: the round trip installs the last committed mask.
\<close>

theorem undo_redo_uncommitted_counterexample:
  "run no_shapes [Reset (Some [1, 1]), UpdatePoints 1 [0] [0] True, Commit,
                  UpdatePoints 2 [0] [0] True] init = Inr uncommitted_edit
   \<and> 2 \<le> length (m_history uncommitted_edit)
   \<and> m_mask (redo (undo uncommitted_edit)) \<noteq> m_mask uncommitted_edit"
  by code_simp

subsection \<open>Reset\<close>

text \<open>
  C10.  \<open>reset\<close> with a tuple of two non-negative integers succeeds and leaves an
  all-zero mask of that shape.  When the shape differs from the shape of the mask, the
  history is exactly one snapshot of the new mask, whatever it was before, the redo list
  is empty, and \<open>sigUndoable(False)\<close>, \<open>sigRedoable(False)\<close> and \<open>sigChanged\<close> are
  emitted.  When the shape is the same, the history and the redo list are kept and only
  \<open>sigChanged\<close> is emitted.
\<close>

theorem reset_reshape:
  "length sh = 2 \<Longrightarrow> \<forall>d \<in> set sh. 0 \<le> d \<Longrightarrow>
   \<exists>s'. reset (Some sh) s = Inr s' \<and> m_mask s' = zeros (map nat sh)
     \<and> shape (m_mask s') = map nat sh
     \<and> (sh \<noteq> map int (shape (m_mask s)) \<longrightarrow>
           m_history s' = [zeros (map nat sh)] \<and> m_redo s' = []
           \<and> emitted s' = emitted s @ [sigUndoable False, sigRedoable False, sigChanged])
     \<and> (sh = map int (shape (m_mask s)) \<longrightarrow>
           m_history s' = m_history s \<and> m_redo s' = m_redo s
           \<and> emitted s' = emitted s @ [sigChanged])"
  by (auto simp: reset_def Let_def resetHistory_def zeros_def)

theorem reset_reshape_witness:
  "(\<exists>s'. reset (Some [10, 10]) committed_edit = Inr s'
      \<and> m_history s' = [zeros [10, 10]] \<and> m_redo s' = [])
   \<and> (\<exists>s'. reset (Some [1, 1]) committed_edit = Inr s'
      \<and> m_mask s' = zeros [1, 1] \<and> m_history s' = m_history committed_edit)"
proof -
  have a: "length [10, 10 :: int] = 2 \<and> (\<forall>d \<in> set [10, 10 :: int]. 0 \<le> d)" by simp
  have b: "length [1, 1 :: int] = 2 \<and> (\<forall>d \<in> set [1, 1 :: int]. 0 \<le> d)" by simp
  have c: "[10, 10] \<noteq> map int (shape (m_mask committed_edit))"
    and d: "[1, 1] = map int (shape (m_mask committed_edit))"
    by (simp_all add: committed_edit_def)
  from reset_reshape [of "[10, 10]" committed_edit] a c
  have "\<exists>s'. reset (Some [10, 10]) committed_edit = Inr s'
      \<and> m_history s' = [zeros [10, 10]] \<and> m_redo s' = []"
    by auto
  moreover from reset_reshape [of "[1, 1]" committed_edit] b d
  have "\<exists>s'. reset (Some [1, 1]) committed_edit = Inr s'
      \<and> m_mask s' = zeros [1, 1] \<and> m_history s' = m_history committed_edit"
    by auto
  ultimately show ?thesis by blast
qed

subsection \<open>What each call does to the history\<close>

lemma evict_length: "evict d h = Inr h' \<Longrightarrow> int (length h') < d"
  by (induction h) (auto split: if_splits)

lemma commit_history:
  "commit s = Inr s' \<Longrightarrow>
     historyDepth s' = historyDepth s \<and> m_mask s' = m_mask s \<and> m_history s' \<noteq> []
     \<and> (s' = s \<or> (m_redo s' = [] \<and> int (length (m_history s')) \<le> historyDepth s))"
  by (auto simp: commit_def commit_needed_def Let_def
      split: sum.splits bool.splits if_splits dest: evict_length)

lemma undo_fields:
  "historyDepth (undo s) = historyDepth s"
  "length (m_history (undo s)) =
     (if 1 < length (m_history s) then length (m_history s) - 1 else length (m_history s))"
  "length (m_redo (undo s)) =
     (if 1 < length (m_history s) then length (m_redo s) + 1 else length (m_redo s))"
  by (simp_all add: undo_def Let_def)

lemma undo_nonempty: "m_history s \<noteq> [] \<Longrightarrow> m_history (undo s) \<noteq> []"
  using undo_fields(2) [of s] by (cases "m_history s"; cases "m_history (undo s)") (auto split: if_splits)

lemma redo_fields:
  "historyDepth (redo s) = historyDepth s"
  "length (m_history (redo s)) =
     (if m_redo s \<noteq> [] then length (m_history s) + 1 else length (m_history s))"
  "length (m_redo (redo s)) = length (m_redo s) - 1"
  by (cases "m_redo s" rule: rev_cases; simp add: redo_def Let_def)+

lemma redo_nonempty: "m_history s \<noteq> [] \<Longrightarrow> m_history (redo s) \<noteq> []"
  by (simp add: redo_def Let_def)

lemma resetHistory_fields [simp]:
  "historyDepth (resetHistory s) = historyDepth s"
  "m_mask (resetHistory s) = m_mask s"
  "m_history (resetHistory s) = [m_mask s]"
  "m_redo (resetHistory s) = []"
  by (simp_all add: resetHistory_def)

lemma setMask_frame:
  "setMask a s = Inr s' \<Longrightarrow>
     historyDepth s' = historyDepth s \<and> m_history s' = m_history s \<and> m_redo s' = m_redo s"
  by (auto simp: setMask_def split: if_splits)

lemma clear_frame:
  "clear level s = Inr s' \<Longrightarrow>
     historyDepth s' = historyDepth s \<and> m_history s' = m_history s \<and> m_redo s' = m_redo s"
  by (auto simp: clear_def split: if_splits)

lemma invert_frame:
  "invert level s = Inr s' \<Longrightarrow>
     historyDepth s' = historyDepth s \<and> m_history s' = m_history s \<and> m_redo s' = m_redo s"
  by (auto simp: invert_def Let_def split: if_splits)

lemma updateRectangle_frame:
  "updateRectangle level row col height width msk s = Inr s' \<Longrightarrow>
     historyDepth s' = historyDepth s \<and> m_history s' = m_history s \<and> m_redo s' = m_redo s"
  by (auto simp: updateRectangle_def Let_def split: if_splits list.splits prod.splits)

lemma updatePoints_frame:
  "updatePoints level rows cols msk s = Inr s' \<Longrightarrow>
     historyDepth s' = historyDepth s \<and> m_history s' = m_history s \<and> m_redo s' = m_redo s"
  by (auto simp: updatePoints_def Let_def split: if_splits list.splits)

lemma updateStencil_frame:
  "updateStencil level stencil msk s = Inr s' \<Longrightarrow>
     historyDepth s' = historyDepth s \<and> m_history s' = m_history s \<and> m_redo s' = m_redo s"
  by (auto simp: updateStencil_def split: sum.splits prod.splits dest: updatePoints_frame)

lemma updatePolygon_frame:
  "updatePolygon geo level vertices msk s = Inr s' \<Longrightarrow>
     historyDepth s' = historyDepth s \<and> m_history s' = m_history s \<and> m_redo s' = m_redo s"
  by (auto simp: updatePolygon_def Let_def)

lemma updateDisk_frame:
  "updateDisk geo level crow ccol radius msk s = Inr s' \<Longrightarrow>
     historyDepth s' = historyDepth s \<and> m_history s' = m_history s \<and> m_redo s' = m_redo s"
  by (auto simp: updateDisk_def split: prod.splits dest: updatePoints_frame)

lemma updateLine_frame:
  "updateLine geo level row0 col0 row1 col1 width msk s = Inr s' \<Longrightarrow>
     historyDepth s' = historyDepth s \<and> m_history s' = m_history s \<and> m_redo s' = m_redo s"
  by (auto simp: updateLine_def split: prod.splits dest: updatePoints_frame)

lemma reset_history:
  "reset shp s = Inr s' \<Longrightarrow>
     historyDepth s' = historyDepth s
     \<and> ((m_history s' = m_history s \<and> m_redo s' = m_redo s)
        \<or> (m_history s' = [m_mask s'] \<and> m_redo s' = []))"
  by (auto simp: reset_def Let_def split: if_splits)

lemma exec_depth: "exec geo x s = Inr s' \<Longrightarrow> historyDepth s' = historyDepth s"
  by (cases x)
    (auto simp: undo_fields redo_fields
      dest: setMask_frame commit_history clear_frame reset_history invert_frame
        updateRectangle_frame updatePolygon_frame updatePoints_frame updateStencil_frame
        updateDisk_frame updateLine_frame)

lemma exec_nonempty: "exec geo x s = Inr s' \<Longrightarrow> m_history s \<noteq> [] \<Longrightarrow> m_history s' \<noteq> []"
  by (cases x)
    (auto simp: undo_nonempty redo_nonempty
      dest: setMask_frame commit_history clear_frame reset_history invert_frame
        updateRectangle_frame updatePolygon_frame updatePoints_frame updateStencil_frame
        updateDisk_frame updateLine_frame)

lemma exec_bound:
  assumes "exec geo x s = Inr s'" and "1 \<le> historyDepth s"
    and "int (length (m_history s) + length (m_redo s)) \<le> historyDepth s"
  shows "int (length (m_history s') + length (m_redo s')) \<le> historyDepth s"
  using assms
  by (cases x)
    (auto simp: undo_fields redo_fields length_greater_0_conv [symmetric] simp del: length_greater_0_conv
      dest: setMask_frame commit_history clear_frame reset_history invert_frame
        updateRectangle_frame updatePolygon_frame updatePoints_frame updateStencil_frame
        updateDisk_frame updateLine_frame)

lemma run_depth: "run geo ops s = Inr s' \<Longrightarrow> historyDepth s' = historyDepth s"
  by (induction ops arbitrary: s) (auto split: sum.splits dest: exec_depth)

lemma run_nonempty: "run geo ops s = Inr s' \<Longrightarrow> m_history s \<noteq> [] \<Longrightarrow> m_history s' \<noteq> []"
  by (induction ops arbitrary: s) (auto split: sum.splits dest: exec_nonempty)

lemma run_bound:
  "run geo ops s = Inr s' \<Longrightarrow> 1 \<le> historyDepth s \<Longrightarrow>
   int (length (m_history s) + length (m_redo s)) \<le> historyDepth s \<Longrightarrow>
   int (length (m_history s') + length (m_redo s')) \<le> historyDepth s"
proof (induction ops arbitrary: s)
  case Nil
  then show ?case by simp
next
  case (Cons x xs)
  from Cons.prems(1) obtain t where x: "exec geo x s = Inr t" and xs: "run geo xs t = Inr s'"
    by (auto split: sum.splits)
  have d: "historyDepth t = historyDepth s" using x by (rule exec_depth)
  have "int (length (m_history t) + length (m_redo t)) \<le> historyDepth s"
    using x Cons.prems(2,3) by (rule exec_bound)
  with Cons.IH [OF xs] d Cons.prems(2) show ?case by simp
qed

subsection \<open>The depth of the history\<close>

lemma undo_stuck: "length (m_history s) \<le> 1 \<Longrightarrow> undo s = s"
  by (simp add: undo_def)

lemma undo_pow_length: "length (m_history ((undo ^^ k) s)) \<le> max 1 (length (m_history s) - k)"
  by (induction k) (auto simp: undo_fields)

lemma undo_pow_stable:
  assumes "length (m_history s) \<le> Suc n" and "n \<le> k"
  shows "(undo ^^ k) s = (undo ^^ n) s"
  using assms(2)
proof (induction k rule: dec_induct)
  case base
  show ?case by simp
next
  case (step j)
  have "length (m_history ((undo ^^ j) s)) \<le> 1"
    using undo_pow_length [of j s] assms(1) step.hyps(1) by simp
  then have "undo ((undo ^^ j) s) = (undo ^^ j) s" by (rule undo_stuck)
  with step.IH show ?case by simp
qed

text \<open>
  C3.  Take a fresh Mask whose \<open>historyDepth\<close> is \<open>d \<ge> 1\<close> (10 unless it is set
  otherwise).  After any sequence of calls (\<open>commit\<close>, \<open>undo\<close>, \<open>redo\<close>, \<open>reset\<close>,
  \<open>resetHistory\<close>, \<open>setMask\<close>, \<open>clear\<close>, \<open>invert\<close> and the drawing operations),
  the depth is still \<open>d\<close> and the history holds at most \<open>d\<close> snapshots; it still does
  after one more \<open>redo\<close>, which appends without evicting.  Undoing \<open>d - 1\<close> times
  reaches a state that further calls of \<open>undo\<close> do not change: no more than \<open>d - 1\<close>
  earlier states can be restored.
\<close>

theorem history_depth_bound:
  assumes "1 \<le> d" and "run geo ops (init\<lparr>historyDepth := d\<rparr>) = Inr s"
  shows "historyDepth s = d \<and> int (length (m_history s)) \<le> d
     \<and> int (length (m_history (redo s))) \<le> d
     \<and> (\<forall>k \<ge> nat (d - 1). (undo ^^ k) s = (undo ^^ nat (d - 1)) s)"
proof (intro conjI allI impI)
  show "historyDepth s = d" using run_depth [OF assms(2)] by simp
  have "int (length (m_history s) + length (m_redo s)) \<le> historyDepth (init\<lparr>historyDepth := d\<rparr>)"
    using assms(2) by (rule run_bound) (use assms(1) in \<open>simp_all add: init_def\<close>)
  then have b: "int (length (m_history s) + length (m_redo s)) \<le> d" by simp
  then show "int (length (m_history s)) \<le> d" by simp
  show "int (length (m_history (redo s))) \<le> d"
    using b by (cases "m_redo s") (simp_all add: redo_fields)
  have h: "length (m_history s) \<le> Suc (nat (d - 1))" using b assms(1) by simp
  fix k
  assume "nat (d - 1) \<le> k"
  with h show "(undo ^^ k) s = (undo ^^ nat (d - 1)) s"
    by (rule undo_pow_stable)
qed

theorem history_depth_bound_witness:
  "run no_shapes twelve_commits (init\<lparr>historyDepth := 10\<rparr>) = Inr after_twelve
   \<and> length (m_history after_twelve) = 10
   \<and> int (length (m_history (redo after_twelve))) \<le> 10
   \<and> (undo ^^ 12) after_twelve = (undo ^^ 9) after_twelve"
proof -
  have d: "(1::int) \<le> 10" by simp
  have r: "run no_shapes twelve_commits (init\<lparr>historyDepth := 10\<rparr>) = Inr after_twelve"
    by code_simp
  have l: "length (m_history after_twelve) = 10" by code_simp
  from history_depth_bound [OF d r]
  have u: "int (length (m_history (redo after_twelve))) \<le> 10"
    and st: "\<forall>k \<ge> nat (10 - 1). (undo ^^ k) after_twelve = (undo ^^ nat (10 - 1)) after_twelve"
    by blast+
  have n: "nat (10 - 1) = 9" by simp
  have "(9::nat) \<le> 12" by simp
  with st [unfolded n] have "(undo ^^ 12) after_twelve = (undo ^^ 9) after_twelve" by blast
  with r l u show ?thesis by blast
qed

subsection \<open>The history is seeded by the first reset or commit\<close>

text \<open>
  C7, as the code has it.  The history of a fresh Mask is empty.  \<open>resetHistory\<close>
  makes it one snapshot of the current mask, and so does the first \<open>reset\<close> of a fresh
  Mask, whose one-dimensional mask has a shape different from any shape \<open>reset\<close>
  accepts; a successful \<open>commit\<close> leaves it non-empty.  Once it is non-empty it stays
  non-empty under every sequence of calls.
\<close>

theorem history_seeded_then_kept:
  "m_history init = []
   \<and> m_history (resetHistory s) = [m_mask s]
   \<and> (commit s = Inr s' \<longrightarrow> m_history s' \<noteq> [])
   \<and> (reset shp init = Inr s' \<longrightarrow> m_history s' = [m_mask s'])
   \<and> (m_history s \<noteq> [] \<and> run geo ops s = Inr s' \<longrightarrow> m_history s' \<noteq> [])"
proof (intro conjI impI)
  show "m_history init = []" by (simp add: init_def)
  show "m_history (resetHistory s) = [m_mask s]" by simp
  show "m_history s' \<noteq> []" if "commit s = Inr s'" using commit_history [OF that] by simp
  show "m_history s' = [m_mask s']" if "reset shp init = Inr s'"
  proof -
    have "shape (m_mask init) = [0]" by (simp add: init_def)
    then show ?thesis using that
      by (cases shp) (auto simp: reset_def Let_def split: if_splits)
  qed
  show "m_history s' \<noteq> []" if "m_history s \<noteq> [] \<and> run geo ops s = Inr s'"
    using that run_nonempty by blast
qed

theorem history_seeded_then_kept_witness:
  "commit init = Inr (init\<lparr>m_history := [m_mask init]\<rparr>)
   \<and> m_history (init\<lparr>m_history := [m_mask init]\<rparr>) \<noteq> []
   \<and> m_history uncommitted_edit \<noteq> []
   \<and> run no_shapes [Undo, Undo, Clear 1, Undo] uncommitted_edit
        = Inr (undo (notify (undo uncommitted_edit)))
   \<and> m_history (undo (notify (undo uncommitted_edit))) \<noteq> []"
proof -
  have c: "commit init = Inr (init\<lparr>m_history := [m_mask init]\<rparr>)" by code_simp
  have h: "m_history uncommitted_edit \<noteq> []" by (simp add: uncommitted_edit_def)
  have u: "run no_shapes [Undo, Undo, Clear 1, Undo] uncommitted_edit
             = Inr (undo (notify (undo uncommitted_edit)))"
    by code_simp
  from history_seeded_then_kept [where s = init and s' = "init\<lparr>m_history := [m_mask init]\<rparr>"] c
  have 1: "m_history (init\<lparr>m_history := [m_mask init]\<rparr>) \<noteq> []" by blast
  from history_seeded_then_kept [where s = uncommitted_edit and geo = no_shapes
      and ops = "[Undo, Undo, Clear 1, Undo]" and s' = "undo (notify (undo uncommitted_edit))"] h u
  have 2: "m_history (undo (notify (undo uncommitted_edit))) \<noteq> []" by blast
  from c 1 h u 2 show ?thesis by blast
qed

text \<open>Directly after construction the history holds no snapshot.\<close>

theorem history_empty_counterexample: "\<not> 1 \<le> length (m_history init)"
  by (simp add: init_def)

subsection \<open>Cells of a two-dimensional mask\<close>

lemma uint8_level: "0 < level \<Longrightarrow> level < 256 \<Longrightarrow> uint (uint8 level) = level"
  by (simp add: uint8_def uint_word_of_int)

lemma uint8_level_nonzero: "0 < level \<Longrightarrow> level < 256 \<Longrightarrow> uint8 level \<noteq> 0"
  using uint8_level [of level] by auto

lemma index_less: "r < R \<Longrightarrow> c < C \<Longrightarrow> r * C + c < R * (C::nat)"
proof -
  assume r: "r < R" and c: "c < C"
  have "r * C + c < r * C + C" using c by simp
  also have "\<dots> = Suc r * C" by simp
  also have "\<dots> \<le> R * C" using r by (intro mult_le_mono1) simp
  finally show ?thesis .
qed

lemma index_eq: "c < C \<Longrightarrow> c' < C \<Longrightarrow> r * C + c = r' * C + c' \<longleftrightarrow> r = r' \<and> c = (c'::nat)"
proof
  assume c: "c < C" and c': "c' < C" and e: "r * C + c = r' * C + c'"
  have "(r * C + c) div C = r" "(r * C + c) mod C = c" using c by simp_all
  moreover have "(r' * C + c') div C = r'" "(r' * C + c') mod C = c'" using c' by simp_all
  ultimately show "r = r' \<and> c = c'" using e by metis
qed simp

lemma foldl_update_length:
  "length (foldl (\<lambda>f (r, c). f[r * n + c := v]) xs pts) = length xs"
  by (induction pts arbitrary: xs) (auto split: prod.splits)

lemma foldl_update_nth:
  "i < length xs \<Longrightarrow>
   foldl (\<lambda>f (r, c). f[r * n + c := v]) xs pts ! i
     = (if \<exists>(r, c) \<in> set pts. r * n + c = i then v else xs ! i)"
proof (induction pts arbitrary: xs)
  case Nil
  then show ?case by simp
next
  case (Cons p pts)
  obtain r c where p: "p = (r, c)" by (cases p)
  show ?case using Cons.prems by (auto simp: p Cons.IH nth_list_update)
qed

lemma set_points_fields [simp]:
  "shape (set_points pts v a) = shape a"
  "length (flat (set_points pts v a)) = length (flat a)"
  by (simp_all add: set_points_def foldl_update_length)

lemma set_points_cell:
  assumes "shape a = [R, C]" and "wf_array a" and "r < R" and "c < C"
    and "\<forall>(r', c') \<in> set pts. c' < C"
  shows "cell (set_points pts v a) r c = (if (r, c) \<in> set pts then v else cell a r c)"
proof -
  have i: "r * C + c < length (flat a)"
    using assms(1-4) index_less [of r R c C] by (simp add: wf_array_def)
  have "(\<exists>(r', c') \<in> set pts. r' * C + c' = r * C + c) \<longleftrightarrow> (r, c) \<in> set pts"
    using assms(4,5) by (auto simp: index_eq)
  then show ?thesis using i assms(1)
    by (simp add: cell_def set_points_def foldl_update_nth)
qed

lemma valid_points_iff:
  "(r, c) \<in> set (valid_points R C rows cols)
     \<longleftrightarrow> r < R \<and> c < C \<and> (int r, int c) \<in> set (zip rows cols)"
  by (force simp: valid_points_def in_bounds_def)

lemma update_selected_fields [simp]:
  "shape (update_selected sel f a) = shape a"
  "length (flat (update_selected sel f a)) = length (flat a)"
  by (simp_all add: update_selected_def)

lemma update_selected_cell:
  assumes "shape a = [R, C]" and "wf_array a" and "r < R" and "c < C"
  shows "cell (update_selected sel f a) r c
           = (if sel (r * C + c) then f (cell a r c) else cell a r c)"
proof -
  have i: "r * C + c < length (flat a)"
    using assms index_less [of r R c C] by (simp add: wf_array_def)
  then show ?thesis using assms(1) by (simp add: cell_def update_selected_def)
qed


lemma updatePoints_cell:
  assumes sh: "shape (m_mask s) = [R, C]" and wf: "wf_array (m_mask s)"
    and len: "length rows = length cols" and r: "r < R" and c: "c < C"
  shows "\<exists>s'. updatePoints level rows cols msk s = Inr s'
           \<and> shape (m_mask s') = [R, C]
           \<and> cell (m_mask s') r c =
               (if (int r, int c) \<in> set (zip rows cols)
                then paint level msk (cell (m_mask s) r c) else cell (m_mask s) r c)"
proof -
  let ?pts = "valid_points R C rows cols"
  let ?inMask = "filter (\<lambda>(r, c). uint (cell (m_mask s) r c) = level) ?pts"
  have v: "\<forall>(r', c') \<in> set ?pts. c' < C" by (auto simp: valid_points_iff)
  then have v': "\<forall>(r', c') \<in> set ?inMask. c' < C" by auto
  have m: "(r, c) \<in> set ?pts \<longleftrightarrow> (int r, int c) \<in> set (zip rows cols)"
    using r c by (simp add: valid_points_iff)
  show ?thesis
  proof (cases msk)
    case True
    then have "updatePoints level rows cols msk s
                 = Inr (notify (s\<lparr>m_mask := set_points ?pts (uint8 level) (m_mask s)\<rparr>))"
      using sh len by (simp add: updatePoints_def)
    moreover have "cell (set_points ?pts (uint8 level) (m_mask s)) r c =
        (if (int r, int c) \<in> set (zip rows cols)
         then paint level msk (cell (m_mask s) r c) else cell (m_mask s) r c)"
      using set_points_cell [OF sh wf r c v] m True by (simp add: paint_def)
    ultimately show ?thesis using sh by simp
  next
    case False
    then have "updatePoints level rows cols msk s
                 = Inr (notify (s\<lparr>m_mask := set_points ?inMask 0 (m_mask s)\<rparr>))"
      using sh len by (simp add: updatePoints_def Let_def)
    moreover have "cell (set_points ?inMask 0 (m_mask s)) r c =
        (if (int r, int c) \<in> set (zip rows cols)
         then paint level msk (cell (m_mask s) r c) else cell (m_mask s) r c)"
      using set_points_cell [OF sh wf r c v'] m False by (auto simp: paint_def)
    ultimately show ?thesis using sh by simp
  qed
qed

lemma updateRectangle_cell:
  assumes sh: "shape (m_mask s) = [R, C]" and wf: "wf_array (m_mask s)"
    and lv: "0 < level" "level < 256" and r: "r < R" and c: "c < C"
  shows "\<exists>s'. updateRectangle level row col height width msk s = Inr s'
           \<and> shape (m_mask s') = [R, C]
           \<and> cell (m_mask s') r c =
               (if fst (rect_slice row height R) \<le> r \<and> r < snd (rect_slice row height R)
                   \<and> fst (rect_slice col width C) \<le> c \<and> c < snd (rect_slice col width C)
                then paint level msk (cell (m_mask s) r c) else cell (m_mask s) r c)"
proof -
  have dm: "(r * C + c) div C = r" "(r * C + c) mod C = c" using c by simp_all
  show ?thesis
    using lv sh c update_selected_cell [OF sh wf r c]
    by (simp add: updateRectangle_def Let_def split_beta dm)
qed

subsection \<open>Masking and unmasking\<close>

text \<open>
  C1.  On a well-formed mask of shape \<open>(R, C)\<close> and for a level from 1 to 255,
  \<open>updatePoints\<close> (given as many rows as columns) and \<open>updateRectangle\<close> succeed,
  and a cell \<open>(r, c)\<close> of the mask ends as follows.  If the cell is selected (its
  coordinates are among the given pairs, or lie within the row and column slices of the
  rectangle): with \<open>mask = True\<close> it holds the level, whatever it held before; with
  \<open>mask = False\<close> it holds 0 if it held the level and is unchanged otherwise, so a
  cell holding another level is kept.  If the cell is not selected it is unchanged.
\<close>

theorem mask_unmask_level_scoped:
  assumes "shape (m_mask s) = [R, C]" and "wf_array (m_mask s)"
    and "0 < level" and "level < 256"
    and "length rows = length cols" and "r < R" and "c < C"
  shows "uint (uint8 level) = level
     \<and> (\<exists>s'. updatePoints level rows cols msk s = Inr s'
           \<and> cell (m_mask s') r c =
               (if (int r, int c) \<in> set (zip rows cols)
                then (if msk then uint8 level
                      else if uint (cell (m_mask s) r c) = level then 0
                      else cell (m_mask s) r c)
                else cell (m_mask s) r c))
     \<and> (\<exists>s'. updateRectangle level row col height width msk s = Inr s'
           \<and> cell (m_mask s') r c =
               (if fst (rect_slice row height R) \<le> r \<and> r < snd (rect_slice row height R)
                   \<and> fst (rect_slice col width C) \<le> c \<and> c < snd (rect_slice col width C)
                then (if msk then uint8 level
                      else if uint (cell (m_mask s) r c) = level then 0
                      else cell (m_mask s) r c)
                else cell (m_mask s) r c))"
proof (intro conjI)
  show "uint (uint8 level) = level" using assms(3,4) by (rule uint8_level)
  show "\<exists>s'. updatePoints level rows cols msk s = Inr s'
           \<and> cell (m_mask s') r c =
               (if (int r, int c) \<in> set (zip rows cols)
                then (if msk then uint8 level
                      else if uint (cell (m_mask s) r c) = level then 0
                      else cell (m_mask s) r c)
                else cell (m_mask s) r c)"
    using updatePoints_cell [OF assms(1,2,5,6,7), of level msk]
    by (auto simp: paint_def)
  show "\<exists>s'. updateRectangle level row col height width msk s = Inr s'
           \<and> cell (m_mask s') r c =
               (if fst (rect_slice row height R) \<le> r \<and> r < snd (rect_slice row height R)
                   \<and> fst (rect_slice col width C) \<le> c \<and> c < snd (rect_slice col width C)
                then (if msk then uint8 level
                      else if uint (cell (m_mask s) r c) = level then 0
                      else cell (m_mask s) r c)
                else cell (m_mask s) r c)"
    using updateRectangle_cell [OF assms(1,2,3,4,6,7), of row col height width msk]
    by (auto simp: paint_def)
qed

theorem mask_unmask_level_scoped_witness:
  "run no_shapes [Reset (Some [5, 5]), UpdateRectangle 3 0 0 1 1 True] init = Inr painted3
   \<and> (\<exists>s'. updateRectangle 5 0 0 1 1 False painted3 = Inr s' \<and> cell (m_mask s') 0 0 = 3)"
proof -
  have run: "run no_shapes [Reset (Some [5, 5]), UpdateRectangle 3 0 0 1 1 True] init
               = Inr painted3"
    by code_simp
  have sh: "shape (m_mask painted3) = [5, 5]" by code_simp
  have wf: "wf_array (m_mask painted3)" by code_simp
  have old: "cell (m_mask painted3) 0 0 = 3" by code_simp
  have lv: "(0::int) < 5" "(5::int) < 256" "length [0::int] = length [0::int]"
    "(0::nat) < 5"
    by simp_all
  from mask_unmask_level_scoped [OF sh wf lv(1,2,3,4,4),
      where row = 0 and col = 0 and height = 1 and width = 1 and msk = False]
  have "\<exists>s'. updateRectangle 5 0 0 1 1 False painted3 = Inr s' \<and> cell (m_mask s') 0 0 = 3"
    by (auto simp: old split: if_splits)
  with run show ?thesis by blast
qed

subsection \<open>Coordinates outside the mask\<close>

lemma valid_points_kept:
  "valid_points R C
      (map fst (filter (in_bounds R C) (zip rows cols)))
      (map snd (filter (in_bounds R C) (zip rows cols)))
     = valid_points R C rows cols"
  by (simp add: valid_points_def zip_map_fst_snd)

lemma set_points_none [simp]: "set_points [] v a = a"
  by (simp add: set_points_def)

lemma in_bounds_spelled:
  "in_bounds R C = (\<lambda>(r, c). \<not> (r < 0 \<or> c < 0 \<or> r \<ge> int R \<or> c \<ge> int C))"
  by (auto simp: in_bounds_def fun_eq_iff)

text \<open>
  C4.  On a mask of shape \<open>(R, C)\<close>, \<open>updatePoints\<close> with as many rows as columns
  raises nothing.  The pairs it keeps are the given pairs without those that have
  \<open>row < 0\<close>, \<open>col < 0\<close>, \<open>row \<ge> R\<close> or \<open>col \<ge> C\<close>, and its result is the
  result of the same call on the kept pairs.  The shape and the number of cells are
  unchanged, and when no pair is kept the mask is unchanged.  On a well-formed mask,
  every cell whose coordinates are a kept pair is updated (set to the level when
  masking; set to 0 when unmasking and the cell holds the level) and every other cell
  is unchanged.
\<close>

theorem points_out_of_bounds_discarded:
  assumes "shape (m_mask s) = [R, C]" and "length rows = length cols"
  shows "\<exists>s'. updatePoints level rows cols msk s = Inr s'
     \<and> filter (in_bounds R C) (zip rows cols)
          = filter (\<lambda>(r, c). \<not> (r < 0 \<or> c < 0 \<or> r \<ge> int R \<or> c \<ge> int C)) (zip rows cols)
     \<and> updatePoints level
          (map fst (filter (in_bounds R C) (zip rows cols)))
          (map snd (filter (in_bounds R C) (zip rows cols)))
          msk s = Inr s'
     \<and> shape (m_mask s') = [R, C]
     \<and> length (flat (m_mask s')) = length (flat (m_mask s))
     \<and> (filter (in_bounds R C) (zip rows cols) = [] \<longrightarrow> m_mask s' = m_mask s)
     \<and> (wf_array (m_mask s) \<longrightarrow>
          (\<forall>r < R. \<forall>c < C.
             cell (m_mask s') r c =
               (if (int r, int c) \<in> set (filter (in_bounds R C) (zip rows cols))
                then (if msk then uint8 level
                      else if uint (cell (m_mask s) r c) = level then 0
                      else cell (m_mask s) r c)
                else cell (m_mask s) r c)))"
proof -
  let ?kept = "filter (in_bounds R C) (zip rows cols)"
  have same: "updatePoints level (map fst ?kept) (map snd ?kept) msk s
                = updatePoints level rows cols msk s"
    using assms by (simp add: updatePoints_def valid_points_kept)
  have none: "?kept = [] \<Longrightarrow> valid_points R C rows cols = []"
    by (simp add: valid_points_def)
  have sp: "?kept = filter (\<lambda>(r, c). \<not> (r < 0 \<or> c < 0 \<or> r \<ge> int R \<or> c \<ge> int C)) (zip rows cols)"
    by (simp only: in_bounds_spelled)
  have ex: "\<exists>s'. updatePoints level rows cols msk s = Inr s'
     \<and> shape (m_mask s') = [R, C]
     \<and> length (flat (m_mask s')) = length (flat (m_mask s))
     \<and> (?kept = [] \<longrightarrow> m_mask s' = m_mask s)"
    using assms none by (cases msk) (auto simp: updatePoints_def Let_def)
  then obtain s' where s': "updatePoints level rows cols msk s = Inr s'"
    and rest: "shape (m_mask s') = [R, C]"
      "length (flat (m_mask s')) = length (flat (m_mask s))"
      "?kept = [] \<longrightarrow> m_mask s' = m_mask s"
    by blast
  have cells: "cell (m_mask s') r c =
      (if (int r, int c) \<in> set ?kept
       then (if msk then uint8 level
             else if uint (cell (m_mask s) r c) = level then 0
             else cell (m_mask s) r c)
       else cell (m_mask s) r c)"
    if wf: "wf_array (m_mask s)" and r: "r < R" and c: "c < C" for r c
  proof -
    have k: "(int r, int c) \<in> set ?kept \<longleftrightarrow> (int r, int c) \<in> set (zip rows cols)"
      using r c by (auto simp: in_bounds_def)
    from updatePoints_cell [OF assms(1) wf assms(2) r c, of level msk] s'
    have "cell (m_mask s') r c =
        (if (int r, int c) \<in> set (zip rows cols)
         then paint level msk (cell (m_mask s) r c) else cell (m_mask s) r c)"
      by auto
    then show ?thesis unfolding k paint_def .
  qed
  from s' sp same rest cells show ?thesis by auto
qed

theorem points_out_of_bounds_discarded_witness:
  "\<exists>s'. updatePoints 1 [-1, 0, 10] [0, 0, 0] True blank5 = Inr s'
     \<and> updatePoints 1 [0] [0] True blank5 = Inr s'
     \<and> flat (m_mask s') = [1, 0, 0, 0, 0,  0, 0, 0, 0, 0,  0, 0, 0, 0, 0,  0, 0, 0, 0, 0,
                            0, 0, 0, 0, 0]
     \<and> cell (m_mask s') 0 0 = 1 \<and> cell (m_mask s') 2 0 = 0 \<and> cell (m_mask s') 4 0 = 0"
proof -
  have sh: "shape (m_mask blank5) = [5, 5]" by code_simp
  have wf: "wf_array (m_mask blank5)" by code_simp
  have len: "length [-1, 0, 10 :: int] = length [0, 0, 0 :: int]" by simp
  have kept: "filter (in_bounds 5 5) (zip [-1, 0, 10] [0, 0, 0]) = [(0, 0)]"
    by (simp add: in_bounds_def)
  have old: "cell (m_mask blank5) 2 0 = 0" "cell (m_mask blank5) 4 0 = 0" by code_simp+
  have one: "uint8 1 = 1" by (simp add: uint8_def)
  have res: "updatePoints 1 [0] [0] True blank5 =
     Inr (notify (blank5\<lparr>m_mask := \<lparr>shape = [5, 5],
       flat = [1, 0, 0, 0, 0,  0, 0, 0, 0, 0,  0, 0, 0, 0, 0,  0, 0, 0, 0, 0,
               0, 0, 0, 0, 0]\<rparr>\<rparr>))"
    by code_simp
  from points_out_of_bounds_discarded [OF sh len, of 1 True] wf
  obtain s' where a: "updatePoints 1 [-1, 0, 10] [0, 0, 0] True blank5 = Inr s'"
    and b: "updatePoints 1 [0] [0] True blank5 = Inr s'"
    and c: "\<forall>r < 5. \<forall>c < 5. cell (m_mask s') r c =
              (if (int r, int c) \<in> set [(0, 0)] then uint8 1 else cell (m_mask blank5) r c)"
    unfolding kept by auto
  from c have "cell (m_mask s') 0 0 = 1" "cell (m_mask s') 2 0 = 0" "cell (m_mask s') 4 0 = 0"
    by (simp_all add: one old)
  moreover from b res have "flat (m_mask s') = [1, 0, 0, 0, 0,  0, 0, 0, 0, 0,  0, 0, 0, 0, 0,
      0, 0, 0, 0, 0,  0, 0, 0, 0, 0]"
    by auto
  ultimately show ?thesis using a b by blast
qed

subsection \<open>Invert\<close>

text \<open>
  C5.  For a level from 1 to 255, \<open>invert\<close> succeeds and keeps the shape; every cell
  that held 0 holds the level, every cell that held the level holds 0, and every other
  cell is unchanged.
\<close>

theorem invert_swaps_level:
  assumes "0 < level" and "level < 256"
  shows "uint (uint8 level) = level
     \<and> (\<exists>s'. invert level s = Inr s'
          \<and> shape (m_mask s') = shape (m_mask s)
          \<and> length (flat (m_mask s')) = length (flat (m_mask s))
          \<and> (\<forall>i < length (flat (m_mask s)).
                flat (m_mask s') ! i =
                  (if flat (m_mask s) ! i = 0 then uint8 level
                   else if uint (flat (m_mask s) ! i) = level then 0
                   else flat (m_mask s) ! i)))"
proof -
  have u: "uint (uint8 level) = level" using assms by (rule uint8_level)
  have z: "uint (0 :: 8 word) \<noteq> level" using assms(1) by simp
  show ?thesis using assms u z by (auto simp: invert_def Let_def)
qed

theorem invert_swaps_level_witness:
  "invert 2 mixed_levels = Inr (notify (mixed_levels\<lparr>m_mask :=
     \<lparr>shape = [5, 5],
      flat = [0, 0, 2, 2, 2,  7, 2, 2, 2, 2,  2, 2, 2, 2, 2,  2, 2, 2, 2, 2,
              2, 2, 2, 2, 0]\<rparr>\<rparr>))
   \<and> (\<exists>s'. invert 2 mixed_levels = Inr s'
         \<and> flat (m_mask s') ! 0 = 0 \<and> flat (m_mask s') ! 2 = 2 \<and> flat (m_mask s') ! 5 = 7)"
proof -
  have res: "invert 2 mixed_levels = Inr (notify (mixed_levels\<lparr>m_mask :=
     \<lparr>shape = [5, 5],
      flat = [0, 0, 2, 2, 2,  7, 2, 2, 2, 2,  2, 2, 2, 2, 2,  2, 2, 2, 2, 2,
              2, 2, 2, 2, 0]\<rparr>\<rparr>))"
    by code_simp
  have lv: "(0::int) < 2" "(2::int) < 256" by simp_all
  from invert_swaps_level [OF lv, of mixed_levels]
  have "\<exists>s'. invert 2 mixed_levels = Inr s'" by blast
  with res show ?thesis by simp
qed

subsection \<open>Rectangles\<close>

text \<open>
  C9.  The rectangle of \<^verbatim>\<open>updateRectangle(1, -3, 0, 0, 0, True)\<close> lies above a 5 by
  5 mask: no cell \<open>(r, c)\<close> has \<open>max 0 (-3) \<le> r \<le> -3 + 0\<close>.  The stop of the row
  slice, \<open>row + height + 1 = -2\<close>, is negative, and Python counts a negative stop from
  the end: the slice \<open>0:-2\<close> selects the rows 0, 1 and 2, whose first column is set to
  the level.
\<close>

theorem updateRectangle_negative_stop:
  "updateRectangle 1 (- 3) 0 0 0 True blank5 =
     Inr (notify (blank5\<lparr>m_mask := \<lparr>shape = [5, 5],
       flat = [1, 0, 0, 0, 0,  1, 0, 0, 0, 0,  1, 0, 0, 0, 0,  0, 0, 0, 0, 0,
               0, 0, 0, 0, 0]\<rparr>\<rparr>))"
  by code_simp

text \<open>
  When neither stop is negative the rectangle is cropped to the mask, with both upper
  bounds included.
\<close>

lemma rect_slice_cropped:
  "0 \<le> row + height + 1 \<Longrightarrow> r < R \<Longrightarrow>
     fst (rect_slice row height R) \<le> r \<and> r < snd (rect_slice row height R)
       \<longleftrightarrow> max 0 row \<le> int r \<and> int r \<le> row + height"
  by (auto simp: rect_slice_def slice_bounds_def Let_def)

lemma updateRectangle_cropped:
  assumes "shape (m_mask s) = [R, C]" and "wf_array (m_mask s)"
    and "0 < level" and "level < 256" and "r < R" and "c < C"
    and "0 \<le> row + height + 1" and "0 \<le> col + width + 1"
  shows "\<exists>s'. updateRectangle level row col height width True s = Inr s'
           \<and> cell (m_mask s') r c =
               (if max 0 row \<le> int r \<and> int r \<le> row + height
                   \<and> max 0 col \<le> int c \<and> int c \<le> col + width
                then uint8 level else cell (m_mask s) r c)"
  using updateRectangle_cell [OF assms(1-6), of row col height width True]
    rect_slice_cropped [OF assms(7,5)] rect_slice_cropped [OF assms(8,6)]
  by (auto simp: paint_def)

subsection \<open>The shape of the mask\<close>

lemma clear_grid:
  "clear level s = Inr s' \<Longrightarrow>
     shape (m_mask s') = shape (m_mask s) \<and> length (flat (m_mask s')) = length (flat (m_mask s))"
  by (auto simp: clear_def split: if_splits)

lemma invert_grid:
  "invert level s = Inr s' \<Longrightarrow>
     shape (m_mask s') = shape (m_mask s) \<and> length (flat (m_mask s')) = length (flat (m_mask s))"
  by (auto simp: invert_def Let_def split: if_splits)

lemma updateRectangle_grid:
  "updateRectangle level row col height width msk s = Inr s' \<Longrightarrow>
     shape (m_mask s') = shape (m_mask s) \<and> length (flat (m_mask s')) = length (flat (m_mask s))"
  by (auto simp: updateRectangle_def Let_def split: if_splits list.splits prod.splits)

lemma updatePoints_grid:
  "updatePoints level rows cols msk s = Inr s' \<Longrightarrow>
     shape (m_mask s') = shape (m_mask s) \<and> length (flat (m_mask s')) = length (flat (m_mask s))"
  by (auto simp: updatePoints_def Let_def split: if_splits list.splits)

lemma updateStencil_grid:
  "updateStencil level stencil msk s = Inr s' \<Longrightarrow>
     shape (m_mask s') = shape (m_mask s) \<and> length (flat (m_mask s')) = length (flat (m_mask s))"
  by (auto simp: updateStencil_def split: sum.splits prod.splits dest: updatePoints_grid)

lemma updatePolygon_grid:
  "updatePolygon geo level vertices msk s = Inr s' \<Longrightarrow>
     shape (m_mask s') = shape (m_mask s) \<and> length (flat (m_mask s')) = length (flat (m_mask s))"
  by (auto simp: updatePolygon_def Let_def)

lemma updateDisk_grid:
  "updateDisk geo level crow ccol radius msk s = Inr s' \<Longrightarrow>
     shape (m_mask s') = shape (m_mask s) \<and> length (flat (m_mask s')) = length (flat (m_mask s))"
  by (auto simp: updateDisk_def split: prod.splits dest: updatePoints_grid)

lemma updateLine_grid:
  "updateLine geo level row0 col0 row1 col1 width msk s = Inr s' \<Longrightarrow>
     shape (m_mask s') = shape (m_mask s) \<and> length (flat (m_mask s')) = length (flat (m_mask s))"
  by (auto simp: updateLine_def split: prod.splits dest: updatePoints_grid)

lemma exec_grid:
  assumes "exec geo x s = Inr s'" and "\<not> is_setMask x" and "\<not> is_reset x"
    and "x \<noteq> Undo" and "x \<noteq> Redo"
  shows "shape (m_mask s') = shape (m_mask s)
     \<and> length (flat (m_mask s')) = length (flat (m_mask s))"
  using assms
  by (cases x)
    (auto dest: commit_history clear_grid invert_grid updateRectangle_grid updatePolygon_grid
       updatePoints_grid updateStencil_grid updateDisk_grid updateLine_grid)

lemma undo_mask:
  "m_mask (undo s) = m_mask s \<or> m_mask (undo s) \<in> set (m_history s)"
proof (cases "1 < length (m_history s)")
  case True
  then have "butlast (m_history s) \<noteq> []" by (cases "m_history s" rule: rev_cases) auto
  then have "last (butlast (m_history s)) \<in> set (m_history s)"
    using last_in_set in_set_butlastD by metis
  with True show ?thesis by (simp add: undo_def Let_def)
next
  case False
  then show ?thesis by (simp add: undo_def)
qed

lemma undo_snapshots:
  "set (m_history (undo s) @ m_redo (undo s)) \<subseteq> set (m_history s @ m_redo s)"
  by (cases "m_history s" rule: rev_cases) (auto simp: undo_def Let_def)

lemma redo_mask:
  "m_mask (redo s) = m_mask s \<or> m_mask (redo s) \<in> set (m_redo s)"
  by (cases "m_redo s" rule: rev_cases) (auto simp: redo_def Let_def)

lemma redo_snapshots:
  "set (m_history (redo s) @ m_redo (redo s)) \<subseteq> set (m_history s @ m_redo s)"
  by (cases "m_redo s" rule: rev_cases) (auto simp: redo_def Let_def)

lemma evict_subset: "evict d h = Inr h' \<Longrightarrow> set h' \<subseteq> set h"
  by (induction h) (auto split: if_splits)

lemma commit_snapshots:
  "commit s = Inr s' \<Longrightarrow>
     set (m_history s' @ m_redo s') \<subseteq> insert (m_mask s) (set (m_history s @ m_redo s))"
  by (auto simp: commit_def Let_def split: sum.splits bool.splits if_splits dest!: evict_subset)


lemma exec_snapshots:
  assumes "exec geo x s = Inr s'" and "\<not> is_reset x"
  shows "set (m_history s' @ m_redo s') \<subseteq> insert (m_mask s) (set (m_history s @ m_redo s))"
proof (cases x)
  case Commit
  with assms(1) show ?thesis using commit_snapshots [of s s'] by simp
next
  case Undo
  with assms(1) show ?thesis using undo_snapshots [of s] by auto
next
  case Redo
  with assms(1) show ?thesis using redo_snapshots [of s] by auto
next
  case (Reset shp)
  with assms(2) show ?thesis by simp
qed (use assms(1) in \<open>auto dest: setMask_frame clear_frame invert_frame updateRectangle_frame
       updatePolygon_frame updatePoints_frame updateStencil_frame updateDisk_frame
       updateLine_frame\<close>)

lemma reset_mask:
  "reset shp s = Inr s' \<Longrightarrow>
     length (shape (m_mask s')) = 2 \<and> wf_array (m_mask s')
     \<and> (m_history s' = [m_mask s'] \<and> m_redo s' = []
        \<or> m_history s' = m_history s \<and> m_redo s' = m_redo s
            \<and> shape (m_mask s') = shape (m_mask s))"
  by (auto simp: reset_def Let_def zeros_def wf_array_def comp_def split: if_splits)

lemma undo_shape: "same_shapes s \<Longrightarrow> shape (m_mask (undo s)) = shape (m_mask s)"
  using undo_mask [of s] by (auto simp: same_shapes_def list_all_iff)

lemma redo_shape: "same_shapes s \<Longrightarrow> shape (m_mask (redo s)) = shape (m_mask s)"
  using redo_mask [of s] by (auto simp: same_shapes_def list_all_iff)

lemma exec_same_shapes:
  assumes x: "exec geo x s = Inr s'" and n: "\<not> is_setMask x" and inv: "same_shapes s"
  shows "same_shapes s'"
proof (cases "is_reset x")
  case True
  then obtain shp where "x = Reset shp" by (cases x) auto
  with x have "reset shp s = Inr s'" by simp
  from reset_mask [OF this] inv show ?thesis
    by (auto simp: same_shapes_def)
next
  case False
  have sh: "shape (m_mask s') = shape (m_mask s)"
  proof (cases "x = Undo \<or> x = Redo")
    case True
    with x inv show ?thesis by (auto simp: undo_shape redo_shape)
  next
    case False
    with exec_grid [OF x n \<open>\<not> is_reset x\<close>] show ?thesis by simp
  qed
  from exec_snapshots [OF x False] inv sh show ?thesis
    by (auto simp: same_shapes_def list_all_iff)
qed

lemma run_same_shapes:
  "run geo ops s = Inr s' \<Longrightarrow> \<forall>x \<in> set ops. \<not> is_setMask x \<Longrightarrow> same_shapes s
     \<Longrightarrow> same_shapes s'"
proof (induction ops arbitrary: s)
  case Nil
  then show ?case by simp
next
  case (Cons x xs)
  from Cons.prems(1) obtain t where x: "exec geo x s = Inr t" and xs: "run geo xs t = Inr s'"
    by (auto split: sum.splits)
  have "same_shapes t" using x Cons.prems(2,3) by (auto intro: exec_same_shapes)
  with Cons.IH [OF xs] Cons.prems(2) show ?case by simp
qed

lemma exec_all_arrays:
  assumes x: "exec geo x s = Inr s'" and inv: "all_arrays P s"
    and new: "x \<noteq> Undo \<Longrightarrow> x \<noteq> Redo \<Longrightarrow> P (m_mask s')"
  shows "all_arrays P s'"
proof (cases "is_reset x")
  case True
  then obtain shp where r: "x = Reset shp" by (cases x) auto
  with x have "reset shp s = Inr s'" by simp
  from reset_mask [OF this] inv new r show ?thesis
    by (auto simp: all_arrays_def)
next
  case False
  have m: "P (m_mask s')"
  proof (cases "x = Undo \<or> x = Redo")
    case True
    with x inv undo_mask [of s] redo_mask [of s] show ?thesis
      by (auto simp: all_arrays_def list_all_iff)
  next
    case False
    with new show ?thesis by simp
  qed
  from exec_snapshots [OF x False] inv m show ?thesis
    by (auto simp: all_arrays_def list_all_iff)
qed

lemma exec_rank:
  assumes "exec geo x s = Inr s'"
    and "all_arrays (\<lambda>g. shape g = [0] \<or> length (shape g) = 2) s"
  shows "all_arrays (\<lambda>g. shape g = [0] \<or> length (shape g) = 2) s'"
  using assms
proof (rule exec_all_arrays)
  assume u: "x \<noteq> Undo" "x \<noteq> Redo"
  show "shape (m_mask s') = [0] \<or> length (shape (m_mask s')) = 2"
  proof (cases "is_setMask x \<or> is_reset x")
    case True
    then show ?thesis using assms(1)
      by (cases x) (auto simp: setMask_def as_uint8_def split: if_splits dest: reset_mask)
  next
    case False
    with exec_grid [OF assms(1) _ _ u] assms(2) show ?thesis by (simp add: all_arrays_def)
  qed
qed

lemma run_rank:
  "run geo ops s = Inr s' \<Longrightarrow> all_arrays (\<lambda>g. shape g = [0] \<or> length (shape g) = 2) s
     \<Longrightarrow> all_arrays (\<lambda>g. shape g = [0] \<or> length (shape g) = 2) s'"
  by (induction ops arbitrary: s) (auto split: sum.splits dest: exec_rank)

lemma exec_wf:
  assumes "exec geo x s = Inr s'" and "all_arrays wf_array s"
    and "list_all wf_array (setMask_arrays x)"
  shows "all_arrays wf_array s'"
  using assms(1,2)
proof (rule exec_all_arrays)
  assume u: "x \<noteq> Undo" "x \<noteq> Redo"
  show "wf_array (m_mask s')"
  proof (cases "is_setMask x \<or> is_reset x")
    case True
    then show ?thesis using assms(1,3)
      by (cases x)
        (auto simp: setMask_def as_uint8_def wf_array_def split: if_splits dest: reset_mask)
  next
    case False
    with exec_grid [OF assms(1) _ _ u] assms(2) show ?thesis
      by (simp add: all_arrays_def wf_array_def)
  qed
qed

lemma run_wf:
  "run geo ops s = Inr s' \<Longrightarrow> all_arrays wf_array s
     \<Longrightarrow> \<forall>x \<in> set ops. list_all wf_array (setMask_arrays x)
     \<Longrightarrow> all_arrays wf_array s'"
proof (induction ops arbitrary: s)
  case Nil
  then show ?case by simp
next
  case (Cons x xs)
  from Cons.prems(1) obtain t where x: "exec geo x s = Inr t" and xs: "run geo xs t = Inr s'"
    by (auto split: sum.splits)
  have "all_arrays wf_array t" using x Cons.prems(2,3) by (auto intro: exec_wf)
  with Cons.IH [OF xs] Cons.prems(3) show ?case by simp
qed

text \<open>
  From a fresh Mask, the mask and every snapshot are the initial empty one-dimensional
  array or two-dimensional, and they are well formed when the arrays given to
  \<open>setMask\<close> are.
\<close>

lemma init_arrays:
  "all_arrays (\<lambda>g. shape g = [0] \<or> length (shape g) = 2) init"
  "all_arrays wf_array init"
  by (simp_all add: all_arrays_def init_def wf_array_def)

text \<open>
  C8, as the code has it.  A successful call other than \<open>reset\<close> and \<open>setMask\<close>
  leaves the shape of the mask unchanged: always for \<open>clear\<close>, \<open>invert\<close>, the
  drawing operations, \<open>commit\<close> and \<open>resetHistory\<close>, and for \<open>undo\<close> and \<open>redo\<close>
  when every snapshot has the shape of the mask.  \<open>setMask\<close> gives the mask the shape
  of its argument.  Every snapshot has the shape of the mask in every state reached
  from a fresh Mask without \<open>setMask\<close>.  A \<open>reset\<close> whose target shape differs from
  the shape of the mask leaves a history of one snapshot of the new mask and an empty
  redo list.
\<close>

theorem shape_kept_except_reset_setMask:
  "(exec geo x s = Inr s' \<and> \<not> is_reset x \<and> \<not> is_setMask x
      \<and> (x = Undo \<or> x = Redo \<longrightarrow> same_shapes s)
      \<longrightarrow> shape (m_mask s') = shape (m_mask s))
   \<and> (setMask a s = Inr s' \<longrightarrow> shape (m_mask s') = shape a)
   \<and> (run geo ops init = Inr s \<and> (\<forall>x \<in> set ops. \<not> is_setMask x) \<longrightarrow> same_shapes s)
   \<and> (reset shp s = Inr s'
        \<and> (case shp of None \<Rightarrow> [0, 0] | Some t \<Rightarrow> t) \<noteq> map int (shape (m_mask s))
      \<longrightarrow> m_history s' = [m_mask s'] \<and> m_redo s' = [])"
proof -
  have 1: "shape (m_mask s') = shape (m_mask s)"
    if a: "exec geo x s = Inr s' \<and> \<not> is_reset x \<and> \<not> is_setMask x
      \<and> (x = Undo \<or> x = Redo \<longrightarrow> same_shapes s)"
  proof (cases "x = Undo \<or> x = Redo")
    case True
    with a show ?thesis by (auto simp: undo_shape redo_shape)
  next
    case False
    with a exec_grid [of geo x s s'] show ?thesis by simp
  qed
  have 2: "shape (m_mask s') = shape a" if "setMask a s = Inr s'"
    using that by (auto simp: setMask_def as_uint8_def split: if_splits)
  have "same_shapes init" by (simp add: same_shapes_def init_def)
  then have 3: "same_shapes s"
    if "run geo ops init = Inr s \<and> (\<forall>x \<in> set ops. \<not> is_setMask x)"
    using that run_same_shapes by blast
  have 4: "m_history s' = [m_mask s'] \<and> m_redo s' = []"
    if "reset shp s = Inr s'
        \<and> (case shp of None \<Rightarrow> [0, 0] | Some t \<Rightarrow> t) \<noteq> map int (shape (m_mask s))"
    using that by (auto simp: reset_def Let_def split: if_splits)
  from 1 2 3 4 show ?thesis by blast
qed

theorem shape_kept_except_reset_setMask_witness:
  "exec no_shapes Undo committed_edit = Inr (undo committed_edit)
   \<and> same_shapes committed_edit
   \<and> shape (m_mask (undo committed_edit)) = shape (m_mask committed_edit)
   \<and> run no_shapes twelve_commits init = Inr after_twelve \<and> same_shapes after_twelve
   \<and> reset (Some [5, 5]) init = Inr blank5
   \<and> m_history blank5 = [m_mask blank5] \<and> m_redo blank5 = []"
proof -
  have u: "exec no_shapes Undo committed_edit = Inr (undo committed_edit)" by simp
  have i: "same_shapes committed_edit" by code_simp
  have n: "\<not> is_reset Undo \<and> \<not> is_setMask Undo" by simp
  have r: "run no_shapes twelve_commits init = Inr after_twelve" by code_simp
  have t: "\<forall>x \<in> set twelve_commits. \<not> is_setMask x" by code_simp
  have b: "reset (Some [5, 5]) init = Inr blank5" by code_simp
  have d: "(case Some [5, 5] of None \<Rightarrow> [0, 0] | Some t \<Rightarrow> t) \<noteq> map int (shape (m_mask init))"
    by (simp add: init_def)
  from shape_kept_except_reset_setMask [where geo = no_shapes and x = Undo
      and s = committed_edit and s' = "undo committed_edit"] u i n
  have 1: "shape (m_mask (undo committed_edit)) = shape (m_mask committed_edit)" by blast
  from shape_kept_except_reset_setMask [where geo = no_shapes and ops = twelve_commits
      and s = after_twelve] r t
  have 2: "same_shapes after_twelve" by blast
  from shape_kept_except_reset_setMask [where shp = "Some [5, 5]" and s = init and s' = blank5]
    b d
  have 3: "m_history blank5 = [m_mask blank5] \<and> m_redo blank5 = []" by blast
  from u i 1 r 2 b 3 show ?thesis by blast
qed

text \<open>
  \<open>setMask\<close> changes the shape of a 1 by 1 mask to 1 by 2, and after a commit
  \<open>undo\<close> changes it back.
\<close>

theorem setMask_changes_shape_counterexample:
  "run no_shapes [Reset (Some [1, 1]), UpdatePoints 1 [0] [0] True, Commit,
                  UpdatePoints 2 [0] [0] True, Commit,
                  SetMask \<lparr>shape = [1, 2], flat = [5, 6]\<rparr>, Commit] init = Inr reshaped
   \<and> setMask \<lparr>shape = [1, 2], flat = [5, 6]\<rparr> committed_edit
        = Inr (notify (committed_edit\<lparr>m_mask := \<lparr>shape = [1, 2], flat = [5, 6]\<rparr>\<rparr>))
   \<and> shape (m_mask committed_edit) = [1, 1]
   \<and> shape (m_mask (notify (committed_edit\<lparr>m_mask := \<lparr>shape = [1, 2], flat = [5, 6]\<rparr>\<rparr>)))
        = [1, 2]
   \<and> shape (m_mask reshaped) = [1, 2]
   \<and> shape (m_mask (undo reshaped)) = [1, 1]"
  by code_simp

end
